theory Spec2Isabelle
  imports Complex_Main
begin

section \<open>Gesture whiteboard: the pinch-to-pointer translation loop\<close>

text \<open>
  The development embeds \<^verbatim>\<open>calculateDistance\<close> (utils/geometryUtils) and the
  hand-tracking loop of \<^verbatim>\<open>client/src/App.tsx\<close> (\<^verbatim>\<open>triggerEvent\<close>,
  \<^verbatim>\<open>predictWebcam\<close> and its rescheduling through \<^verbatim>\<open>requestAnimationFrame\<close>).

  Conventions of the embedding:
  \<^item> a JavaScript \<^verbatim>\<open>number\<close> is an IEEE double in the browser; here it is a
    \<^typ>\<open>real\<close>, so rounding, infinities and NaN are idealised away and
    \<^verbatim>\<open>Math.pow(a, 2)\<close> is \<open>a\<^sup>2\<close>;
  \<^item> the object fields \<^verbatim>\<open>x\<close>, \<^verbatim>\<open>y\<close>, \<^verbatim>\<open>z\<close> carry a prefix
    (\<open>p_x\<close>, \<open>lm_x\<close>, ...) because a record field is a global constant;
  \<^item> reading an array beyond its end gives \<^verbatim>\<open>undefined\<close>, and reading a field of
    \<^verbatim>\<open>undefined\<close> throws a \<^verbatim>\<open>TypeError\<close>: both are branches of the model;
  \<^item> the mutable closure variable \<^verbatim>\<open>wasPinching\<close> and the React state
    \<^verbatim>\<open>isDrawing\<close> are fields of an explicit state, and \<^verbatim>\<open>setIsDrawing\<close>
    takes effect at once;
  \<^item> the events a frame emits are its calls to \<^verbatim>\<open>triggerEvent\<close>, in order; what
    one call does to the page is \<open>triggerEvent\<close>, which dispatches the event when
    the canvas reference is set and the page has an upper canvas, and drops it otherwise;
  \<^item> the canvas size of the coordinate mapping is \<^verbatim>\<open>window.innerWidth\<close> by
    \<^verbatim>\<open>window.innerHeight\<close>, read anew on every frame;
  \<^item> clearing and repainting the skeleton overlay is not modelled.
\<close>

subsection \<open>utils/geometryUtils\<close>

record point =
  p_x :: real
  p_y :: real

definition calculateDistance :: "point \<Rightarrow> point \<Rightarrow> real" where
  "calculateDistance p1 p2 = sqrt ((p_x p2 - p_x p1)\<^sup>2 + (p_y p2 - p_y p1)\<^sup>2)"

subsection \<open>Data of the tracking loop\<close>

text \<open>A landmark of the detector: normalised coordinates and a depth.\<close>

record landmark =
  lm_x :: real
  lm_y :: real
  lm_z :: real

type_synonym hand = "landmark list"

text \<open>
  The detector's answer: \<^verbatim>\<open>results.landmarks\<close> is absent (\<open>None\<close>) or an array with
  one landmark array per detected hand.
\<close>

record detection =
  landmarks :: "hand list option"

text \<open>
  What one animation frame reads from its surroundings: whether the landmarker has been
  loaded, whether the video element is mounted, the video's current time, what
  \<^verbatim>\<open>detectForVideo\<close> answers on this frame, and the window's inner size.
\<close>

record frame =
  landmarkerLoaded :: bool
  videoMounted :: bool
  currentTime :: real
  results :: detection
  innerWidth :: real
  innerHeight :: real

datatype event_name = mousedown | mousemove | mouseup

text \<open>One call \<^verbatim>\<open>triggerEvent(eventName, x, y)\<close>.\<close>

type_synonym trigger_call = "event_name \<times> real \<times> real"

record mouse_event =
  eventType :: event_name
  bubbles :: bool
  cancelable :: bool
  clientX :: real
  clientY :: real

text \<open>
  The part of the page \<^verbatim>\<open>triggerEvent\<close> looks at: whether the canvas reference is
  set, and whether the selector \<^verbatim>\<open>.upper-canvas\<close> finds an element.
\<close>

record surface =
  fabricCanvasMounted :: bool
  upperCanvasPresent :: bool

record loop_state =
  wasPinching :: bool
  isDrawing :: bool

datatype error = TypeError

subsection \<open>The loop\<close>

text \<open>
  \<^verbatim>\<open>triggerEvent\<close> returns the event it dispatched on the upper canvas, or \<open>None\<close>
  when it returned early or found no upper canvas.
\<close>

definition triggerEvent :: "surface \<Rightarrow> trigger_call \<Rightarrow> mouse_event option" where
  "triggerEvent s c =
     (case c of (eventName, x, y) \<Rightarrow>
        if \<not> fabricCanvasMounted s then None
        else
          (let event = \<lparr>eventType = eventName, bubbles = True, cancelable = True,
                         clientX = x, clientY = y\<rparr>
           in if upperCanvasPresent s then Some event else None))"

text \<open>\<^verbatim>\<open>xs[i]\<close> of JavaScript: \<open>None\<close> stands for \<^verbatim>\<open>undefined\<close>.\<close>

definition at_index :: "'a list \<Rightarrow> nat \<Rightarrow> 'a option" where
  "at_index xs i = (if i < length xs then Some (xs ! i) else None)"

definition PINCH_THRESHOLD :: real where
  "PINCH_THRESHOLD = 0.05"

text \<open>
  One run of \<^verbatim>\<open>predictWebcam\<close>, up to the rescheduling: the new state and the calls to
  \<^verbatim>\<open>triggerEvent\<close> it made, or the exception it threw.
\<close>

definition predictWebcam :: "loop_state \<Rightarrow> frame \<Rightarrow> error + (loop_state \<times> trigger_call list)" where
  "predictWebcam st f =
     (if landmarkerLoaded f \<and> videoMounted f \<and> currentTime f > 0 then
        (case landmarks (results f) of
           None \<Rightarrow> Inr (st, [])
         | Some hands \<Rightarrow>
             if length hands > 0 then
               (let hand = hands ! 0 in
                case at_index hand 4 of
                  None \<Rightarrow> Inl TypeError
                | Some thumbTip \<Rightarrow>
                   (case at_index hand 8 of
                      None \<Rightarrow> Inl TypeError
                    | Some indexTip \<Rightarrow>
                       (let distance = calculateDistance
                              \<lparr>p_x = lm_x thumbTip, p_y = lm_y thumbTip\<rparr>
                              \<lparr>p_x = lm_x indexTip, p_y = lm_y indexTip\<rparr>;
                            isPinching = distance < PINCH_THRESHOLD;
                            x = (1 - lm_x indexTip) * innerWidth f;
                            y = lm_y indexTip * innerHeight f;
                            (calls, drawing) =
                              (if isPinching then
                                 (if \<not> wasPinching st
                                  then ([(mousedown, x, y)], True)
                                  else ([(mousemove, x, y)], isDrawing st))
                               else
                                 ((if wasPinching st then [(mouseup, x, y)] else [])
                                    @ [(mousemove, x, y)],
                                  if wasPinching st then False else isDrawing st))
                        in Inr (\<lparr>wasPinching = isPinching, isDrawing = drawing\<rparr>, calls))))
             else Inr (st, []))
      else Inr (st, []))"

text \<open>
  The loop over a sequence of frames. \<^verbatim>\<open>predictWebcam\<close> reschedules itself at its end,
  so an exception ends the loop: the frames after it are never looked at. The result is
  the last state, every call made, and the exception if one was thrown.
\<close>

fun frameLoop :: "loop_state \<Rightarrow> frame list \<Rightarrow> loop_state \<times> trigger_call list \<times> error option" where
  "frameLoop st [] = (st, [], None)"
| "frameLoop st (f # fs) =
     (case predictWebcam st f of
        Inl e \<Rightarrow> (st, [], Some e)
      | Inr (st', calls) \<Rightarrow>
          (case frameLoop st' fs of (st'', calls', e) \<Rightarrow> (st'', calls @ calls', e)))"

text \<open>The state the effect starts the loop in.\<close>

definition initialState :: loop_state where
  "initialState = \<lparr>wasPinching = False, isDrawing = False\<rparr>"

subsection \<open>Observations on frames and runs\<close>

text \<open>
  The guard of \<^verbatim>\<open>predictWebcam\<close>: the detector is asked only when the landmarker is
  loaded, the video element is mounted and the video has started.
\<close>

definition detectorRan :: "frame \<Rightarrow> bool" where
  "detectorRan f = (landmarkerLoaded f \<and> videoMounted f \<and> currentTime f > 0)"

text \<open>The hand that \<^verbatim>\<open>results.landmarks[0]\<close> reads, when there is one.\<close>

definition firstHand :: "frame \<Rightarrow> hand option" where
  "firstHand f = (case landmarks (results f) of Some (h # hs) \<Rightarrow> Some h | _ \<Rightarrow> None)"

text \<open>
  A frame is tracked when the detector ran and its first hand has the landmarks of index
  4 and 8 (the detector's hands have 21 landmarks each).
\<close>

definition tracked :: "frame \<Rightarrow> bool" where
  "tracked f = (detectorRan f \<and> (case firstHand f of Some h \<Rightarrow> 8 < length h | None \<Rightarrow> False))"

text \<open>
  The classification of a frame and the screen position of its index fingertip, read off
  the first hand as lines 113 to 135 of the component compute them.
\<close>

definition pinching :: "frame \<Rightarrow> bool" where
  "pinching f =
     (case firstHand f of
        Some h \<Rightarrow> calculateDistance \<lparr>p_x = lm_x (h ! 4), p_y = lm_y (h ! 4)\<rparr>
                    \<lparr>p_x = lm_x (h ! 8), p_y = lm_y (h ! 8)\<rparr> < PINCH_THRESHOLD
      | None \<Rightarrow> False)"

definition cursor :: "frame \<Rightarrow> real \<times> real" where
  "cursor f =
     (case firstHand f of
        Some h \<Rightarrow> ((1 - lm_x (h ! 8)) * innerWidth f, lm_y (h ! 8) * innerHeight f)
      | None \<Rightarrow> (0, 0))"

text \<open>The calls made and the state reached by the loop over a list of frames.\<close>

definition callsOf :: "loop_state \<Rightarrow> frame list \<Rightarrow> trigger_call list" where
  "callsOf st fs = fst (snd (frameLoop st fs))"

definition stateAfter :: "loop_state \<Rightarrow> frame list \<Rightarrow> loop_state" where
  "stateAfter st fs = fst (frameLoop st fs)"

text \<open>
  \<open>alternating d es\<close>: in the sequence of event names \<open>es\<close>, once the moves are
  left out, downs and ups take turns; the first of them is an up when a stroke is open
  (\<open>d\<close>) and a down otherwise. So no down follows a down and no up follows an up,
  whether or not moves lie between them.
\<close>

fun alternating :: "bool \<Rightarrow> event_name list \<Rightarrow> bool" where
  "alternating d [] = True"
| "alternating d (mousemove # es) = alternating d es"
| "alternating d (mousedown # es) = (\<not> d \<and> alternating True es)"
| "alternating d (mouseup # es) = (d \<and> alternating False es)"

subsection \<open>Sample frames\<close>

text \<open>
  A hand of 21 landmarks with the given thumb tip (index 4) and index fingertip (index 8),
  every other landmark at the wrist, and a frame of a running detector over a window of
  the given size.
\<close>

definition lmAt :: "real \<Rightarrow> real \<Rightarrow> landmark" where
  "lmAt a b = \<lparr>lm_x = a, lm_y = b, lm_z = 0\<rparr>"

definition sampleHand :: "landmark \<Rightarrow> landmark \<Rightarrow> hand" where
  "sampleHand thumbTip indexTip =
     (let w = lmAt 0.5 0.9
      in [w, w, w, w, thumbTip, w, w, w, indexTip, w, w, w, w, w, w, w, w, w, w, w, w])"

definition sampleFrame :: "real \<Rightarrow> real \<Rightarrow> hand list option \<Rightarrow> frame" where
  "sampleFrame w h ls =
     \<lparr>landmarkerLoaded = True, videoMounted = True, currentTime = 1,
      results = \<lparr>landmarks = ls\<rparr>, innerWidth = w, innerHeight = h\<rparr>"

definition pinchFrame :: frame where
  "pinchFrame = sampleFrame 1000 800 (Some [sampleHand (lmAt 0.5 0.5) (lmAt 0.52 0.5)])"

definition openFrame :: frame where
  "openFrame = sampleFrame 1000 800 (Some [sampleHand (lmAt 0.5 0.5) (lmAt 0.9 0.5)])"

definition boundaryFrame :: frame where
  "boundaryFrame = sampleFrame 1000 800 (Some [sampleHand (lmAt 0.5 0.5) (lmAt 0.55 0.5)])"

definition drawingState :: loop_state where
  "drawingState = \<lparr>wasPinching = True, isDrawing = True\<rparr>"

definition mirrorFrame :: "real \<Rightarrow> frame" where
  "mirrorFrame a = sampleFrame 1000 800 (Some [sampleHand (lmAt 0.25 0.25) (lmAt a 0.25)])"

definition readySurface :: surface where
  "readySurface = \<lparr>fabricCanvasMounted = True, upperCanvasPresent = True\<rparr>"

section \<open>Properties\<close>

subsection \<open>One step on a frame with a hand\<close>

lemmas fixture_defs = pinchFrame_def openFrame_def boundaryFrame_def sampleFrame_def
  sampleHand_def lmAt_def Let_def

lemmas observer_defs = tracked_def detectorRan_def firstHand_def pinching_def cursor_def
  calculateDistance_def PINCH_THRESHOLD_def

lemma predictWebcam_hand:
  assumes "detectorRan f" and "landmarks (results f) = Some (h # hs)" and "8 < length h"
  shows "predictWebcam st f =
     (let p = calculateDistance \<lparr>p_x = lm_x (h ! 4), p_y = lm_y (h ! 4)\<rparr>
                  \<lparr>p_x = lm_x (h ! 8), p_y = lm_y (h ! 8)\<rparr> < PINCH_THRESHOLD;
          x = (1 - lm_x (h ! 8)) * innerWidth f;
          y = lm_y (h ! 8) * innerHeight f
      in Inr (\<lparr>wasPinching = p,
               isDrawing = (if p then (if wasPinching st then isDrawing st else True)
                            else (if wasPinching st then False else isDrawing st))\<rparr>,
              if p then (if wasPinching st then [(mousemove, x, y)] else [(mousedown, x, y)])
              else (if wasPinching st then [(mouseup, x, y), (mousemove, x, y)]
                    else [(mousemove, x, y)])))"
  using assms by (simp add: predictWebcam_def detectorRan_def at_index_def Let_def)

lemma predictWebcam_tracked:
  assumes "tracked f"
  shows "predictWebcam st f =
     Inr (\<lparr>wasPinching = pinching f,
           isDrawing = (if pinching f then (if wasPinching st then isDrawing st else True)
                        else (if wasPinching st then False else isDrawing st))\<rparr>,
          if pinching f
          then (if wasPinching st then [(mousemove, cursor f)] else [(mousedown, cursor f)])
          else (if wasPinching st then [(mouseup, cursor f), (mousemove, cursor f)]
                else [(mousemove, cursor f)]))"
proof -
  from assms obtain h hs where ran: "detectorRan f"
    and lms: "landmarks (results f) = Some (h # hs)" and len: "8 < length h"
    by (auto simp: tracked_def firstHand_def split: option.splits list.splits)
  have fh: "firstHand f = Some h" using lms by (simp add: firstHand_def)
  show ?thesis
    by (simp add: predictWebcam_hand [OF ran lms len] pinching_def cursor_def fh Let_def)
qed

lemma triggerEvent_ready:
  assumes "fabricCanvasMounted s" and "upperCanvasPresent s"
  shows "triggerEvent s (n, a, b) =
     Some \<lparr>eventType = n, bubbles = True, cancelable = True, clientX = a, clientY = b\<rparr>"
  using assms by (simp add: triggerEvent_def)

lemma triggerEvent_dropped:
  assumes "\<not> fabricCanvasMounted s \<or> \<not> upperCanvasPresent s"
  shows "triggerEvent s c = None"
  using assms by (auto simp: triggerEvent_def split: prod.splits)

subsection \<open>The loop over several frames\<close>

lemma frameLoop_Cons_Inr:
  assumes "predictWebcam st f = Inr (st', calls)"
  shows "frameLoop st (f # fs) =
     (stateAfter st' fs, calls @ callsOf st' fs, snd (snd (frameLoop st' fs)))"
  using assms by (simp add: stateAfter_def callsOf_def split: prod.splits)

lemma tracked_Inr:
  assumes "tracked f"
  shows "\<exists>st' calls. predictWebcam st f = Inr (st', calls)"
  by (simp add: predictWebcam_tracked [OF assms])

lemma frameLoop_tracked_append:
  assumes "\<forall>f\<in>set xs. tracked f"
  shows "frameLoop st (xs @ ys) =
     (stateAfter (stateAfter st xs) ys,
      callsOf st xs @ callsOf (stateAfter st xs) ys,
      snd (snd (frameLoop (stateAfter st xs) ys)))"
  using assms
proof (induction xs arbitrary: st)
  case Nil
  then show ?case by (simp add: stateAfter_def callsOf_def)
next
  case (Cons f xs)
  then have t: "tracked f" and ts: "\<forall>f\<in>set xs. tracked f" by simp_all
  from tracked_Inr [OF t] obtain st' calls where step: "predictWebcam st f = Inr (st', calls)"
    by blast
  have "frameLoop st ((f # xs) @ ys) =
        (stateAfter st' (xs @ ys), calls @ callsOf st' (xs @ ys),
         snd (snd (frameLoop st' (xs @ ys))))"
    using frameLoop_Cons_Inr [OF step, of "xs @ ys"] by simp
  moreover have "frameLoop st (f # xs) =
        (stateAfter st' xs, calls @ callsOf st' xs, snd (snd (frameLoop st' xs)))"
    by (rule frameLoop_Cons_Inr [OF step])
  ultimately show ?case
    using Cons.IH [OF ts, of st'] by (simp add: stateAfter_def callsOf_def)
qed

lemma callsOf_append:
  "\<forall>f\<in>set xs. tracked f \<Longrightarrow>
   callsOf st (xs @ ys) = callsOf st xs @ callsOf (stateAfter st xs) ys"
  by (simp add: frameLoop_tracked_append callsOf_def)

lemma stateAfter_append:
  "\<forall>f\<in>set xs. tracked f \<Longrightarrow> stateAfter st (xs @ ys) = stateAfter (stateAfter st xs) ys"
  by (simp add: frameLoop_tracked_append stateAfter_def)

lemma frameLoop_tracked_no_error:
  "\<forall>f\<in>set fs. tracked f \<Longrightarrow> snd (snd (frameLoop st fs)) = None"
proof (induction fs arbitrary: st)
  case Nil
  then show ?case by simp
next
  case (Cons f fs)
  then have t: "tracked f" and ts: "\<forall>f\<in>set fs. tracked f" by simp_all
  from tracked_Inr [OF t] obtain st' calls where step: "predictWebcam st f = Inr (st', calls)"
    by blast
  show ?case
    using Cons.IH [OF ts, of st']
    by (simp del: frameLoop.simps add: frameLoop_Cons_Inr [OF step])
qed

lemma stateAfter_single:
  "tracked f \<Longrightarrow> wasPinching (stateAfter st [f]) = pinching f"
  by (simp add: stateAfter_def predictWebcam_tracked)

lemma stateAfter_release:
  "tracked f \<Longrightarrow> \<not> pinching f \<Longrightarrow> wasPinching st \<Longrightarrow> stateAfter st [f] = initialState"
  by (simp add: stateAfter_def predictWebcam_tracked initialState_def)

lemma callsOf_release:
  "tracked f \<Longrightarrow> \<not> pinching f \<Longrightarrow> wasPinching st \<Longrightarrow>
   callsOf st [f] = [(mouseup, cursor f), (mousemove, cursor f)]"
  by (simp add: callsOf_def predictWebcam_tracked)

lemma hold_run:
  assumes "\<forall>f\<in>set ps. tracked f \<and> pinching f" and "wasPinching st"
  shows "frameLoop st ps = (st, map (\<lambda>f. (mousemove, cursor f)) ps, None)"
  using assms
proof (induction ps arbitrary: st)
  case Nil
  then show ?case by simp
next
  case (Cons f ps)
  then have t: "tracked f" and p: "pinching f"
    and rest: "\<forall>f\<in>set ps. tracked f \<and> pinching f" by simp_all
  have same: "\<lparr>wasPinching = True, isDrawing = isDrawing st\<rparr> = st"
    using Cons.prems(2) by simp
  show ?case
    using Cons.prems(2) Cons.IH [OF rest Cons.prems(2)]
    by (simp add: predictWebcam_tracked [OF t] p same)
qed

lemma start_run:
  assumes "\<forall>f\<in>set ps. tracked f \<and> pinching f" and "ps \<noteq> []" and "\<not> wasPinching st"
  shows "frameLoop st ps =
     (\<lparr>wasPinching = True, isDrawing = True\<rparr>,
      (mousedown, cursor (hd ps)) # map (\<lambda>f. (mousemove, cursor f)) (tl ps), None)"
proof (cases ps)
  case Nil
  with assms(2) show ?thesis by simp
next
  case (Cons f qs)
  with assms(1) have t: "tracked f" and p: "pinching f"
    and rest: "\<forall>f\<in>set qs. tracked f \<and> pinching f" by simp_all
  have "frameLoop \<lparr>wasPinching = True, isDrawing = True\<rparr> qs =
        (\<lparr>wasPinching = True, isDrawing = True\<rparr>, map (\<lambda>f. (mousemove, cursor f)) qs, None)"
    by (rule hold_run [OF rest]) simp
  then show ?thesis
    using assms(3) by (simp add: Cons predictWebcam_tracked [OF t] p)
qed

lemma wasPinching_after:
  assumes "\<forall>f\<in>set pre. tracked f" and "pre = [] \<or> \<not> pinching (last pre)"
  shows "\<not> wasPinching (stateAfter initialState pre)"
proof (cases pre rule: rev_cases)
  case Nil
  then show ?thesis by (simp add: stateAfter_def initialState_def)
next
  case (snoc qs f)
  with assms have t: "tracked f" and q: "\<forall>f\<in>set qs. tracked f" and np: "\<not> pinching f"
    by simp_all
  show ?thesis
    by (simp add: snoc stateAfter_append [OF q] stateAfter_single [OF t] np)
qed

lemma predictWebcam_alternating:
  assumes "predictWebcam st f = Inr (st', calls)" and "alternating (wasPinching st') es"
  shows "alternating (wasPinching st) (map fst calls @ es)"
  using assms
  by (auto simp: predictWebcam_def Let_def split: if_splits option.splits)

lemma frameLoop_alternating:
  "alternating (wasPinching st) (map fst (callsOf st fs))"
proof (induction fs arbitrary: st)
  case Nil
  then show ?case by (simp add: callsOf_def)
next
  case (Cons f fs)
  show ?case
  proof (cases "predictWebcam st f")
    case (Inl e)
    then show ?thesis by (simp add: callsOf_def)
  next
    case (Inr r)
    obtain st' calls where r: "r = (st', calls)" by (cases r)
    have step: "predictWebcam st f = Inr (st', calls)" using Inr r by simp
    have "alternating (wasPinching st) (map fst calls @ map fst (callsOf st' fs))"
      by (rule predictWebcam_alternating [OF step Cons.IH])
    moreover have "callsOf st (f # fs) = calls @ callsOf st' fs"
      by (simp del: frameLoop.simps add: callsOf_def [of st] frameLoop_Cons_Inr [OF step])
    ultimately show ?thesis by simp
  qed
qed

subsection \<open>The sample frames\<close>

lemma tracked_pinchFrame: "tracked pinchFrame"
  by (simp add: fixture_defs observer_defs)

lemma tracked_openFrame: "tracked openFrame"
  by (simp add: fixture_defs observer_defs)

lemma pinching_pinchFrame: "pinching pinchFrame"
  by (simp add: fixture_defs observer_defs)

lemma pinching_openFrame: "\<not> pinching openFrame"
  by (simp add: fixture_defs observer_defs)

lemma cursor_pinchFrame: "cursor pinchFrame = (480, 400)"
  by (simp add: fixture_defs observer_defs)

lemma cursor_openFrame: "cursor openFrame = (100, 400)"
  by (simp add: fixture_defs observer_defs)

lemma step_idle_open:
  "predictWebcam initialState openFrame = Inr (initialState, [(mousemove, 100, 400)])"
  by (simp add: predictWebcam_tracked [OF tracked_openFrame] pinching_openFrame
      cursor_openFrame initialState_def)

lemma step_idle_pinch:
  "predictWebcam initialState pinchFrame = Inr (drawingState, [(mousedown, 480, 400)])"
  by (simp add: predictWebcam_tracked [OF tracked_pinchFrame] pinching_pinchFrame
      cursor_pinchFrame initialState_def drawingState_def)

lemma step_drawing_open:
  "predictWebcam drawingState openFrame =
     Inr (initialState, [(mouseup, 100, 400), (mousemove, 100, 400)])"
  by (simp add: predictWebcam_tracked [OF tracked_openFrame] pinching_openFrame
      cursor_openFrame initialState_def drawingState_def)

subsection \<open>The drawing indicator\<close>

lemma predictWebcam_indicator:
  assumes "predictWebcam st f = Inr (st', calls)"
  shows "isDrawing st' =
     (if mousedown \<in> fst ` set calls then True
      else if mouseup \<in> fst ` set calls then False
      else isDrawing st)"
  using assms by (auto simp: predictWebcam_def Let_def split: if_splits option.splits)

lemma predictWebcam_indicator_inv:
  assumes "predictWebcam st f = Inr (st', calls)" and "isDrawing st = wasPinching st"
  shows "isDrawing st' = wasPinching st'"
  using assms by (auto simp: predictWebcam_def Let_def split: if_splits option.splits)

lemma frameLoop_indicator_inv:
  assumes "frameLoop st fs = (st', calls, e)" and "isDrawing st = wasPinching st"
  shows "isDrawing st' = wasPinching st'"
  using assms
proof (induction fs arbitrary: st calls)
  case Nil
  then show ?case by simp
next
  case (Cons f fs)
  show ?case
  proof (cases "predictWebcam st f")
    case (Inl err)
    with Cons.prems show ?thesis by simp
  next
    case (Inr r)
    obtain s1 c1 where r: "r = (s1, c1)" by (cases r)
    have step: "predictWebcam st f = Inr (s1, c1)" using Inr r by simp
    have inv: "isDrawing s1 = wasPinching s1"
      by (rule predictWebcam_indicator_inv [OF step Cons.prems(2)])
    obtain c2 where rest: "frameLoop s1 fs = (st', c2, e)"
      using Cons.prems(1) step by (auto split: prod.splits)
    show ?thesis by (rule Cons.IH [OF rest inv])
  qed
qed

subsection \<open>Claim C1: one down, moves, one up for each pinch\<close>

text \<open>
  C1. Take any sequence of frames in which the detector ran and found a hand on every
  frame, played from the state the loop starts in. Then no exception ends the loop, and
  the names of the emitted events, with the moves left out, are a down, an up, a down, an
  up and so on: never two downs in a row and never two ups in a row. Moreover, for every
  maximal run \<open>ps\<close> of frames classified as pinching that is followed by a frame
  \<open>r\<close> classified as not pinching, the events are those of the frames before the
  run, then exactly one down at the first frame of the run, then one move for each
  further frame of the run, then exactly one up at \<open>r\<close> (followed by the hover move
  of \<open>r\<close>), then the events of the frames after \<open>r\<close>, which start again from the
  idle state.
\<close>

theorem pinch_event_order:
  assumes "\<forall>f\<in>set fs. tracked f"
  shows "snd (snd (frameLoop initialState fs)) = None \<and>
         alternating False (map fst (callsOf initialState fs)) \<and>
         (\<forall>pre ps r post.
            fs = pre @ ps @ [r] @ post \<and> ps \<noteq> [] \<and> (\<forall>f\<in>set ps. pinching f) \<and>
            \<not> pinching r \<and> (pre = [] \<or> \<not> pinching (last pre)) \<longrightarrow>
            callsOf initialState fs =
              callsOf initialState pre
              @ (mousedown, cursor (hd ps)) # map (\<lambda>f. (mousemove, cursor f)) (tl ps)
              @ [(mouseup, cursor r), (mousemove, cursor r)]
              @ callsOf initialState post)"
proof (intro conjI allI impI)
  show "snd (snd (frameLoop initialState fs)) = None"
    by (rule frameLoop_tracked_no_error [OF assms])
  show "alternating False (map fst (callsOf initialState fs))"
    using frameLoop_alternating [of initialState fs] by (simp add: initialState_def)
next
  fix pre ps r post
  assume h: "fs = pre @ ps @ [r] @ post \<and> ps \<noteq> [] \<and> (\<forall>f\<in>set ps. pinching f) \<and>
             \<not> pinching r \<and> (pre = [] \<or> \<not> pinching (last pre))"
  then have fs: "fs = pre @ ps @ [r] @ post" and ne: "ps \<noteq> []"
    and pin: "\<forall>f\<in>set ps. pinching f" and rel: "\<not> pinching r"
    and before: "pre = [] \<or> \<not> pinching (last pre)" by simp_all
  from assms fs have tpre: "\<forall>f\<in>set pre. tracked f" and tps: "\<forall>f\<in>set ps. tracked f"
    and tr: "tracked r" by simp_all
  define s1 where "s1 = stateAfter initialState pre"
  have idle: "\<not> wasPinching s1"
    unfolding s1_def by (rule wasPinching_after [OF tpre before])
  have both: "\<forall>f\<in>set ps. tracked f \<and> pinching f" using tps pin by simp
  have run: "frameLoop s1 ps =
        (\<lparr>wasPinching = True, isDrawing = True\<rparr>,
         (mousedown, cursor (hd ps)) # map (\<lambda>f. (mousemove, cursor f)) (tl ps), None)"
    by (rule start_run [OF both ne idle])
  define s2 where "s2 = stateAfter s1 ps"
  have s2: "s2 = \<lparr>wasPinching = True, isDrawing = True\<rparr>"
    by (simp add: s2_def stateAfter_def run)
  have c2: "callsOf s1 ps =
        (mousedown, cursor (hd ps)) # map (\<lambda>f. (mousemove, cursor f)) (tl ps)"
    by (simp add: callsOf_def run)
  have s3: "stateAfter s2 [r] = initialState"
    by (rule stateAfter_release [OF tr rel]) (simp add: s2)
  have c3: "callsOf s2 [r] = [(mouseup, cursor r), (mousemove, cursor r)]"
    by (rule callsOf_release [OF tr rel]) (simp add: s2)
  have tr': "\<forall>f\<in>set [r]. tracked f" using tr by simp
  have "callsOf initialState fs =
        callsOf initialState pre @ callsOf s1 ps @ callsOf s2 [r] @ callsOf initialState post"
    unfolding fs
    by (simp only: callsOf_append [OF tpre] callsOf_append [OF tps] callsOf_append [OF tr']
        s1_def [symmetric] s2_def [symmetric] s3)
  then show "callsOf initialState fs =
              callsOf initialState pre
              @ (mousedown, cursor (hd ps)) # map (\<lambda>f. (mousemove, cursor f)) (tl ps)
              @ [(mouseup, cursor r), (mousemove, cursor r)]
              @ callsOf initialState post"
    by (simp add: c2 c3)
qed

text \<open>A hover frame, two pinching frames and a release.\<close>

theorem pinch_event_order_witness:
  "tracked openFrame \<and> tracked pinchFrame \<and>
   callsOf initialState [openFrame, pinchFrame, pinchFrame, openFrame] =
     [(mousemove, 100, 400), (mousedown, 480, 400), (mousemove, 480, 400),
      (mouseup, 100, 400), (mousemove, 100, 400)]"
proof -
  let ?fs = "[openFrame, pinchFrame, pinchFrame, openFrame]"
  have h: "\<forall>f\<in>set ?fs. tracked f"
    by (simp add: tracked_pinchFrame tracked_openFrame)
  have split: "?fs = [openFrame] @ [pinchFrame, pinchFrame] @ [openFrame] @ []
      \<and> [pinchFrame, pinchFrame] \<noteq> [] \<and> (\<forall>f\<in>set [pinchFrame, pinchFrame]. pinching f)
      \<and> \<not> pinching openFrame \<and> ([openFrame] = [] \<or> \<not> pinching (last [openFrame]))"
    by (simp add: pinching_pinchFrame pinching_openFrame)
  from pinch_event_order [OF h] have
    "\<forall>pre ps r post.
        ?fs = pre @ ps @ [r] @ post \<and> ps \<noteq> [] \<and> (\<forall>f\<in>set ps. pinching f) \<and>
        \<not> pinching r \<and> (pre = [] \<or> \<not> pinching (last pre)) \<longrightarrow>
        callsOf initialState ?fs =
          callsOf initialState pre
          @ (mousedown, cursor (hd ps)) # map (\<lambda>f. (mousemove, cursor f)) (tl ps)
          @ [(mouseup, cursor r), (mousemove, cursor r)]
          @ callsOf initialState post"
    by blast
  then have "?fs = [openFrame] @ [pinchFrame, pinchFrame] @ [openFrame] @ []
      \<and> [pinchFrame, pinchFrame] \<noteq> [] \<and> (\<forall>f\<in>set [pinchFrame, pinchFrame]. pinching f)
      \<and> \<not> pinching openFrame \<and> ([openFrame] = [] \<or> \<not> pinching (last [openFrame])) \<longrightarrow>
      callsOf initialState ?fs =
        callsOf initialState [openFrame]
        @ (mousedown, cursor (hd [pinchFrame, pinchFrame]))
          # map (\<lambda>f. (mousemove, cursor f)) (tl [pinchFrame, pinchFrame])
        @ [(mouseup, cursor openFrame), (mousemove, cursor openFrame)]
        @ callsOf initialState []"
    by (elim allE)
  with split have "callsOf initialState ?fs =
        callsOf initialState [openFrame]
        @ (mousedown, cursor (hd [pinchFrame, pinchFrame]))
          # map (\<lambda>f. (mousemove, cursor f)) (tl [pinchFrame, pinchFrame])
        @ [(mouseup, cursor openFrame), (mousemove, cursor openFrame)]
        @ callsOf initialState []"
    by (rule rev_mp)
  moreover have "callsOf initialState [openFrame] = [(mousemove, 100, 400)]"
    by (simp add: callsOf_def step_idle_open)
  moreover have "callsOf initialState [] = []"
    by (simp add: callsOf_def)
  ultimately have "callsOf initialState ?fs =
     [(mousemove, 100, 400), (mousedown, 480, 400), (mousemove, 480, 400),
      (mouseup, 100, 400), (mousemove, 100, 400)]"
    by (simp add: cursor_pinchFrame cursor_openFrame)
  with tracked_openFrame tracked_pinchFrame show ?thesis by simp
qed

subsection \<open>Claim C2: the pinch threshold\<close>

text \<open>
  C2. On a frame with a hand, let \<open>d\<close> be the distance between thumb tip and index
  fingertip. The frame is classified as pinching exactly when \<open>d < 0.05\<close>; for
  \<open>d \<ge> 0.05\<close>, and so for \<open>d = 0.05\<close> itself, it is classified as not pinching.
  The classification is what the frame stores in \<^verbatim>\<open>wasPinching\<close>.
\<close>

theorem pinch_threshold:
  assumes "detectorRan f" and "landmarks (results f) = Some (h # hs)" and "8 < length h"
    and "d = calculateDistance \<lparr>p_x = lm_x (h ! 4), p_y = lm_y (h ! 4)\<rparr>
                \<lparr>p_x = lm_x (h ! 8), p_y = lm_y (h ! 8)\<rparr>"
  shows "\<exists>st' calls. predictWebcam st f = Inr (st', calls) \<and>
           (wasPinching st' \<longleftrightarrow> d < 0.05) \<and>
           (0.05 \<le> d \<longrightarrow> \<not> wasPinching st') \<and>
           (d = 0.05 \<longrightarrow> \<not> wasPinching st')"
  using assms(4)
  by (auto simp: predictWebcam_hand [OF assms(1-3)] Let_def PINCH_THRESHOLD_def)

text \<open>A distance of 0.02 is a pinch; a distance of exactly 0.05 is not.\<close>

theorem pinch_threshold_witness:
  "(\<exists>st' calls. predictWebcam initialState pinchFrame = Inr (st', calls) \<and> wasPinching st') \<and>
   (\<exists>st' calls. predictWebcam initialState boundaryFrame = Inr (st', calls)
      \<and> \<not> wasPinching st')"
proof -
  let ?h = "sampleHand (lmAt 0.5 0.5) (lmAt 0.52 0.5)"
  let ?b = "sampleHand (lmAt 0.5 0.5) (lmAt 0.55 0.5)"
  have p1: "detectorRan pinchFrame" and p2: "landmarks (results pinchFrame) = Some (?h # [])"
    and p3: "8 < length ?h"
    and p4: "0.02 = calculateDistance \<lparr>p_x = lm_x (?h ! 4), p_y = lm_y (?h ! 4)\<rparr>
                \<lparr>p_x = lm_x (?h ! 8), p_y = lm_y (?h ! 8)\<rparr>"
    by (simp_all add: fixture_defs observer_defs)
  have b1: "detectorRan boundaryFrame"
    and b2: "landmarks (results boundaryFrame) = Some (?b # [])"
    and b3: "8 < length ?b"
    and b4: "0.05 = calculateDistance \<lparr>p_x = lm_x (?b ! 4), p_y = lm_y (?b ! 4)\<rparr>
                \<lparr>p_x = lm_x (?b ! 8), p_y = lm_y (?b ! 8)\<rparr>"
    by (simp_all add: fixture_defs observer_defs)
  show ?thesis
    using pinch_threshold [OF p1 p2 p3 p4, of initialState]
      pinch_threshold [OF b1 b2 b3 b4, of initialState]
    by simp
qed

subsection \<open>Claim C3: the events of one frame\<close>

text \<open>
  C3, as stated, asks for exactly one event on every frame with a hand. The frame that
  ends a pinch emits two: the up, and then the hover move that every frame classified as
  not pinching emits.
\<close>

theorem release_emits_two_events:
  "predictWebcam drawingState openFrame =
     Inr (initialState, [(mouseup, 100, 400), (mousemove, 100, 400)])"
  by (simp add: predictWebcam_tracked [OF tracked_openFrame] pinching_openFrame
      cursor_openFrame initialState_def drawingState_def)

text \<open>
  C3, amended. On every frame with a hand, with \<open>p\<close> the classification and
  \<open>(x, y)\<close> the screen position of the index fingertip, the events emitted are: a
  down when pinching and not pinching before; a move when pinching and pinching before;
  an up followed by a move when not pinching and pinching before; a move when not
  pinching and not pinching before. So exactly one event is emitted in every case but
  the third, which emits two.
\<close>

theorem event_table:
  assumes "detectorRan f" and "landmarks (results f) = Some (h # hs)" and "8 < length h"
    and "p = (calculateDistance \<lparr>p_x = lm_x (h ! 4), p_y = lm_y (h ! 4)\<rparr>
                \<lparr>p_x = lm_x (h ! 8), p_y = lm_y (h ! 8)\<rparr> < 0.05)"
    and "x = (1 - lm_x (h ! 8)) * innerWidth f" and "y = lm_y (h ! 8) * innerHeight f"
  shows "\<exists>st'. predictWebcam st f =
            Inr (st', if p \<and> \<not> wasPinching st then [(mousedown, x, y)]
                      else if p \<and> wasPinching st then [(mousemove, x, y)]
                      else if \<not> p \<and> wasPinching st then [(mouseup, x, y), (mousemove, x, y)]
                      else [(mousemove, x, y)])"
  using assms(4-6)
  by (simp add: predictWebcam_hand [OF assms(1-3)] Let_def PINCH_THRESHOLD_def)

text \<open>The four cases on the sample frames.\<close>

theorem event_table_witness:
  "(\<exists>st'. predictWebcam initialState pinchFrame = Inr (st', [(mousedown, 480, 400)])) \<and>
   (\<exists>st'. predictWebcam drawingState pinchFrame = Inr (st', [(mousemove, 480, 400)])) \<and>
   (\<exists>st'. predictWebcam drawingState openFrame =
            Inr (st', [(mouseup, 100, 400), (mousemove, 100, 400)])) \<and>
   (\<exists>st'. predictWebcam initialState openFrame = Inr (st', [(mousemove, 100, 400)]))"
proof -
  let ?h = "sampleHand (lmAt 0.5 0.5) (lmAt 0.52 0.5)"
  let ?o = "sampleHand (lmAt 0.5 0.5) (lmAt 0.9 0.5)"
  have p1: "detectorRan pinchFrame" and p2: "landmarks (results pinchFrame) = Some (?h # [])"
    and p3: "8 < length ?h"
    and p4: "True = (calculateDistance \<lparr>p_x = lm_x (?h ! 4), p_y = lm_y (?h ! 4)\<rparr>
                \<lparr>p_x = lm_x (?h ! 8), p_y = lm_y (?h ! 8)\<rparr> < 0.05)"
    and p5: "480 = (1 - lm_x (?h ! 8)) * innerWidth pinchFrame"
    and p6: "400 = lm_y (?h ! 8) * innerHeight pinchFrame"
    by (simp_all add: fixture_defs observer_defs)
  have o1: "detectorRan openFrame" and o2: "landmarks (results openFrame) = Some (?o # [])"
    and o3: "8 < length ?o"
    and o4: "False = (calculateDistance \<lparr>p_x = lm_x (?o ! 4), p_y = lm_y (?o ! 4)\<rparr>
                \<lparr>p_x = lm_x (?o ! 8), p_y = lm_y (?o ! 8)\<rparr> < 0.05)"
    and o5: "100 = (1 - lm_x (?o ! 8)) * innerWidth openFrame"
    and o6: "400 = lm_y (?o ! 8) * innerHeight openFrame"
    by (simp_all add: fixture_defs observer_defs)
  show ?thesis
    using event_table [OF p1 p2 p3 p4 p5 p6, of initialState]
      event_table [OF p1 p2 p3 p4 p5 p6, of drawingState]
      event_table [OF o1 o2 o3 o4 o5 o6, of drawingState]
      event_table [OF o1 o2 o3 o4 o5 o6, of initialState]
    by (simp add: initialState_def drawingState_def)
qed

subsection \<open>Claim C4: the mapping to screen coordinates\<close>

text \<open>
  C4. On every frame with a hand at least one event is emitted, and every event of the
  frame is at \<open>x = (1 - landmark.x) * innerWidth\<close> and
  \<open>y = landmark.y * innerHeight\<close> for the index fingertip landmark. In particular
  landmark x = 0 gives pixel x = width, landmark x = 1 gives pixel x = 0 and landmark
  x = 0.5 gives half the width; y is not flipped.
\<close>

theorem cursor_mapping:
  assumes "detectorRan f" and "landmarks (results f) = Some (h # hs)" and "8 < length h"
  shows "\<exists>st' calls. predictWebcam st f = Inr (st', calls) \<and> calls \<noteq> [] \<and>
           (\<forall>c\<in>set calls.
              snd c = ((1 - lm_x (h ! 8)) * innerWidth f, lm_y (h ! 8) * innerHeight f)) \<and>
           (lm_x (h ! 8) = 0 \<longrightarrow> (\<forall>c\<in>set calls. fst (snd c) = innerWidth f)) \<and>
           (lm_x (h ! 8) = 1 \<longrightarrow> (\<forall>c\<in>set calls. fst (snd c) = 0)) \<and>
           (lm_x (h ! 8) = 0.5 \<longrightarrow> (\<forall>c\<in>set calls. fst (snd c) = innerWidth f / 2))"
  by (simp add: predictWebcam_hand [OF assms] Let_def)

text \<open>Fingertips at x = 0, x = 1 and x = 1/2 on a window 1000 wide.\<close>

theorem cursor_mapping_witness:
  "(\<exists>st'. predictWebcam initialState (mirrorFrame 0) = Inr (st', [(mousemove, 1000, 200)])) \<and>
   (\<exists>st'. predictWebcam initialState (mirrorFrame 1) = Inr (st', [(mousemove, 0, 200)])) \<and>
   (\<exists>st'. predictWebcam initialState (mirrorFrame (1 / 2)) = Inr (st', [(mousemove, 500, 200)]))"
proof -
  have r: "detectorRan (mirrorFrame a)"
    and l: "landmarks (results (mirrorFrame a)) =
              Some (sampleHand (lmAt 0.25 0.25) (lmAt a 0.25) # [])"
    and n: "8 < length (sampleHand (lmAt 0.25 0.25) (lmAt a 0.25))" for a
    by (simp_all add: mirrorFrame_def fixture_defs observer_defs)
  have e0: "predictWebcam initialState (mirrorFrame 0) =
              Inr (initialState, [(mousemove, 1000, 200)])"
    and e1: "predictWebcam initialState (mirrorFrame 1) =
              Inr (initialState, [(mousemove, 0, 200)])"
    and e2: "predictWebcam initialState (mirrorFrame (1 / 2)) =
              Inr (initialState, [(mousemove, 500, 200)])"
    unfolding predictWebcam_hand [OF r l n]
    by (simp_all add: initialState_def mirrorFrame_def
        fixture_defs calculateDistance_def PINCH_THRESHOLD_def)
  show ?thesis
    using cursor_mapping [OF r [of 0] l [of 0] n [of 0], of initialState]
      cursor_mapping [OF r [of 1] l [of 1] n [of 1], of initialState]
      cursor_mapping [OF r [of "0.5"] l [of "0.5"] n [of "0.5"], of initialState]
    by (simp add: e0 e1 e2)
qed

subsection \<open>Claim C5: a frame without a hand\<close>

text \<open>
  C5. When the detector reports no hand (no landmark array, or an empty one), the frame
  emits no event and leaves the state as it was, whatever that state is, a drawing
  state included: the loop goes on as if the frame had not been there.
\<close>

theorem no_hand_noop:
  assumes "landmarks (results f) = None \<or> landmarks (results f) = Some []"
  shows "predictWebcam st f = Inr (st, []) \<and> frameLoop st (f # fs) = frameLoop st fs"
  using assms by (auto simp: predictWebcam_def split: prod.splits)

text \<open>A drawing state survives a frame without a hand, and the release after it is seen.\<close>

theorem no_hand_noop_witness:
  "predictWebcam drawingState (sampleFrame 1000 800 None) = Inr (drawingState, []) \<and>
   predictWebcam drawingState (sampleFrame 1000 800 (Some [])) = Inr (drawingState, []) \<and>
   frameLoop drawingState [sampleFrame 1000 800 None, openFrame] =
     (initialState, [(mouseup, 100, 400), (mousemove, 100, 400)], None)"
proof -
  have a: "landmarks (results (sampleFrame 1000 800 None)) = None \<or>
           landmarks (results (sampleFrame 1000 800 None)) = Some []"
    and b: "landmarks (results (sampleFrame 1000 800 (Some []))) = None \<or>
            landmarks (results (sampleFrame 1000 800 (Some []))) = Some []"
    by (simp_all add: sampleFrame_def)
  have c: "frameLoop drawingState [openFrame] =
     (initialState, [(mouseup, 100, 400), (mousemove, 100, 400)], None)"
    by (simp add: step_drawing_open)
  show ?thesis
    using no_hand_noop [OF a, of drawingState "[openFrame]"]
      no_hand_noop [OF b, of drawingState "[]"] c
    by simp
qed

subsection \<open>Claim C6: the pinch scenario\<close>

text \<open>
  C6. With the thumb tip at (0.50, 0.50), the index fingertip at (0.52, 0.50), a window
  of 1000 by 800 and no pinch before, the distance is 0.02, the frame is classified as
  pinching, and a down is emitted at pixel (480, 400); on a page whose drawing surface
  is in place, that call dispatches a \<^verbatim>\<open>mousedown\<close> at client position (480, 400).
\<close>

theorem pinch_scenario:
  "calculateDistance \<lparr>p_x = 0.50, p_y = 0.50\<rparr> \<lparr>p_x = 0.52, p_y = 0.50\<rparr> = 0.02 \<and>
   predictWebcam \<lparr>wasPinching = False, isDrawing = False\<rparr>
     (sampleFrame 1000 800 (Some [sampleHand (lmAt 0.50 0.50) (lmAt 0.52 0.50)])) =
     Inr (\<lparr>wasPinching = True, isDrawing = True\<rparr>, [(mousedown, 480, 400)]) \<and>
   triggerEvent readySurface (mousedown, 480, 400) =
     Some \<lparr>eventType = mousedown, bubbles = True, cancelable = True,
           clientX = 480, clientY = 400\<rparr>"
proof (intro conjI)
  show "calculateDistance \<lparr>p_x = 0.50, p_y = 0.50\<rparr> \<lparr>p_x = 0.52, p_y = 0.50\<rparr> = 0.02"
    by (simp add: calculateDistance_def)
  show "predictWebcam \<lparr>wasPinching = False, isDrawing = False\<rparr>
     (sampleFrame 1000 800 (Some [sampleHand (lmAt 0.50 0.50) (lmAt 0.52 0.50)])) =
     Inr (\<lparr>wasPinching = True, isDrawing = True\<rparr>, [(mousedown, 480, 400)])"
    using step_idle_pinch by (simp add: initialState_def drawingState_def pinchFrame_def)
  show "triggerEvent readySurface (mousedown, 480, 400) =
     Some \<lparr>eventType = mousedown, bubbles = True, cancelable = True,
           clientX = 480, clientY = 400\<rparr>"
    by (simp add: triggerEvent_def readySurface_def)
qed

subsection \<open>Claim C7: the distance between the two tips\<close>

text \<open>
  C7. On every frame with a hand \<open>h\<close>, the classification compares
  \<open>sqrt ((x\<^sub>8 - x\<^sub>4)\<^sup>2 + (y\<^sub>8 - y\<^sub>4)\<^sup>2)\<close>, taken between the landmarks of index 4
  and 8 of \<open>h\<close>, with the threshold. Nothing else of the hand is read: a hand that
  has the same x and y at index 4 and at index 8 gives the same result, whatever its z
  coordinates and its other landmarks are.
\<close>

theorem tip_distance:
  assumes "detectorRan f" and "landmarks (results f) = Some (h # hs)" and "8 < length h"
  shows "\<exists>st' calls. predictWebcam st f = Inr (st', calls) \<and>
           wasPinching st' =
             (sqrt ((lm_x (h ! 8) - lm_x (h ! 4))\<^sup>2 + (lm_y (h ! 8) - lm_y (h ! 4))\<^sup>2) < 0.05) \<and>
           (\<forall>h'. 8 < length h' \<and>
                 lm_x (h' ! 4) = lm_x (h ! 4) \<and> lm_y (h' ! 4) = lm_y (h ! 4) \<and>
                 lm_x (h' ! 8) = lm_x (h ! 8) \<and> lm_y (h' ! 8) = lm_y (h ! 8) \<longrightarrow>
                 predictWebcam st (f\<lparr>results := \<lparr>landmarks = Some (h' # hs)\<rparr>\<rparr>) =
                 predictWebcam st f)"
proof -
  have same: "predictWebcam st (f\<lparr>results := \<lparr>landmarks = Some (h' # hs)\<rparr>\<rparr>) =
              predictWebcam st f"
    if "8 < length h'"
      and "lm_x (h' ! 4) = lm_x (h ! 4)" and "lm_y (h' ! 4) = lm_y (h ! 4)"
      and "lm_x (h' ! 8) = lm_x (h ! 8)" and "lm_y (h' ! 8) = lm_y (h ! 8)" for h'
  proof -
    let ?f' = "f\<lparr>results := \<lparr>landmarks = Some (h' # hs)\<rparr>\<rparr>"
    have r: "detectorRan ?f'" using assms(1) by (simp add: detectorRan_def)
    have l: "landmarks (results ?f') = Some (h' # hs)" by simp
    show ?thesis
      by (simp add: predictWebcam_hand [OF r l that(1)] predictWebcam_hand [OF assms]
          that(2-5))
  qed
  show ?thesis
    using same
    by (simp add: predictWebcam_hand [OF assms] Let_def calculateDistance_def
        PINCH_THRESHOLD_def)
qed

text \<open>The pinching sample hand, and the same tips with other depths.\<close>

theorem tip_distance_witness:
  "(\<exists>st' calls. predictWebcam initialState pinchFrame = Inr (st', calls) \<and> wasPinching st') \<and>
   predictWebcam initialState
     (pinchFrame\<lparr>results := \<lparr>landmarks =
        Some [sampleHand \<lparr>lm_x = 0.5, lm_y = 0.5, lm_z = 3\<rparr>
                \<lparr>lm_x = 0.52, lm_y = 0.5, lm_z = -1\<rparr>]\<rparr>\<rparr>) =
   predictWebcam initialState pinchFrame"
proof -
  let ?h = "sampleHand (lmAt 0.5 0.5) (lmAt 0.52 0.5)"
  let ?h' = "sampleHand \<lparr>lm_x = 0.5, lm_y = 0.5, lm_z = 3\<rparr> \<lparr>lm_x = 0.52, lm_y = 0.5, lm_z = -1\<rparr>"
  have p1: "detectorRan pinchFrame" and p2: "landmarks (results pinchFrame) = Some (?h # [])"
    and p3: "8 < length ?h"
    by (simp_all add: fixture_defs observer_defs)
  have same: "8 < length ?h' \<and>
      lm_x (?h' ! 4) = lm_x (?h ! 4) \<and> lm_y (?h' ! 4) = lm_y (?h ! 4) \<and>
      lm_x (?h' ! 8) = lm_x (?h ! 8) \<and> lm_y (?h' ! 8) = lm_y (?h ! 8)"
    by (simp add: fixture_defs)
  have close: "sqrt ((lm_x (?h ! 8) - lm_x (?h ! 4))\<^sup>2 + (lm_y (?h ! 8) - lm_y (?h ! 4))\<^sup>2) < 0.05"
    by (simp add: fixture_defs)
  from tip_distance [OF p1 p2 p3, of initialState] obtain st' calls
    where step: "predictWebcam initialState pinchFrame = Inr (st', calls)"
      and cls: "wasPinching st' =
        (sqrt ((lm_x (?h ! 8) - lm_x (?h ! 4))\<^sup>2 + (lm_y (?h ! 8) - lm_y (?h ! 4))\<^sup>2) < 0.05)"
      and indep: "\<forall>h'. 8 < length h' \<and>
          lm_x (h' ! 4) = lm_x (?h ! 4) \<and> lm_y (h' ! 4) = lm_y (?h ! 4) \<and>
          lm_x (h' ! 8) = lm_x (?h ! 8) \<and> lm_y (h' ! 8) = lm_y (?h ! 8) \<longrightarrow>
          predictWebcam initialState (pinchFrame\<lparr>results := \<lparr>landmarks = Some (h' # [])\<rparr>\<rparr>) =
          predictWebcam initialState pinchFrame"
    by blast
  from cls close have "wasPinching st'" by simp
  with step have first: "\<exists>st' calls. predictWebcam initialState pinchFrame = Inr (st', calls)
      \<and> wasPinching st'"
    by blast
  from indep same have "predictWebcam initialState
      (pinchFrame\<lparr>results := \<lparr>landmarks = Some (?h' # [])\<rparr>\<rparr>) =
      predictWebcam initialState pinchFrame"
    by blast
  with first show ?thesis by blast
qed

subsection \<open>Claim C8: hands beyond the first\<close>

text \<open>
  C8. Two frames that differ only in the hands after the first one give the same result
  from the same state: the same events and the same next state (or the same exception).
\<close>

theorem extra_hands_ignored:
  "predictWebcam st (f\<lparr>results := \<lparr>landmarks = Some (h # hs)\<rparr>\<rparr>) =
   predictWebcam st (f\<lparr>results := \<lparr>landmarks = Some (h # hs')\<rparr>\<rparr>)"
  by (simp add: predictWebcam_def at_index_def Let_def)

subsection \<open>Claim C9: the drawing indicator\<close>

text \<open>
  C9. After any number of frames from the initial state, \<^verbatim>\<open>isDrawing\<close> equals
  \<^verbatim>\<open>wasPinching\<close>. On every frame that returns, \<^verbatim>\<open>isDrawing\<close> becomes true
  when a down is emitted, false when an up is emitted, and keeps its value otherwise.
\<close>

theorem drawing_indicator:
  "(\<forall>fs st calls e. frameLoop initialState fs = (st, calls, e) \<longrightarrow>
      isDrawing st = wasPinching st) \<and>
   (\<forall>st f st' calls. predictWebcam st f = Inr (st', calls) \<longrightarrow>
      isDrawing st' =
        (if mousedown \<in> fst ` set calls then True
         else if mouseup \<in> fst ` set calls then False
         else isDrawing st))"
proof (intro conjI allI impI)
  fix fs st calls e
  assume "frameLoop initialState fs = (st, calls, e)"
  then show "isDrawing st = wasPinching st"
    by (rule frameLoop_indicator_inv) (simp add: initialState_def)
next
  fix st f st' calls
  assume "predictWebcam st f = Inr (st', calls)"
  then show "isDrawing st' =
        (if mousedown \<in> fst ` set calls then True
         else if mouseup \<in> fst ` set calls then False
         else isDrawing st)"
    by (rule predictWebcam_indicator)
qed

text \<open>A pinch and its release from the initial state.\<close>

theorem drawing_indicator_witness:
  "frameLoop initialState [pinchFrame, openFrame] =
     (initialState, [(mousedown, 480, 400), (mouseup, 100, 400), (mousemove, 100, 400)], None) \<and>
   isDrawing initialState = wasPinching initialState \<and>
   predictWebcam initialState pinchFrame = Inr (drawingState, [(mousedown, 480, 400)]) \<and>
   isDrawing drawingState"
proof -
  have a: "frameLoop initialState [pinchFrame, openFrame] =
     (initialState, [(mousedown, 480, 400), (mouseup, 100, 400), (mousemove, 100, 400)], None)"
    by (simp add: step_idle_pinch step_drawing_open)
  have b: "predictWebcam initialState pinchFrame = Inr (drawingState, [(mousedown, 480, 400)])"
    by (rule step_idle_pinch)
  from drawing_indicator have
    "frameLoop initialState [pinchFrame, openFrame] =
       (initialState, [(mousedown, 480, 400), (mouseup, 100, 400), (mousemove, 100, 400)], None)
     \<longrightarrow> isDrawing initialState = wasPinching initialState"
    and "predictWebcam initialState pinchFrame = Inr (drawingState, [(mousedown, 480, 400)])
     \<longrightarrow> isDrawing drawingState =
        (if mousedown \<in> fst ` set [(mousedown, 480::real, 400::real)] then True
         else if mouseup \<in> fst ` set [(mousedown, 480::real, 400::real)] then False
         else isDrawing initialState)"
    by blast+
  with a b show ?thesis by simp
qed

subsection \<open>Claim C10: the distance is symmetric and not negative\<close>

text \<open>
  C10. \<^verbatim>\<open>calculateDistance(p1, p2)\<close> equals \<^verbatim>\<open>calculateDistance(p2, p1)\<close> and is
  at least 0, for all points.
\<close>

theorem calculateDistance_symmetric_nonneg:
  "calculateDistance p1 p2 = calculateDistance p2 p1 \<and> 0 \<le> calculateDistance p1 p2"
  by (simp add: calculateDistance_def power2_commute)

end
